theory Spec2Isabelle
  imports Main "HOL-Library.Multiset" "HOL-Library.Option_ord" "HOL-Library.Sublist"
begin

section \<open>The feed aggregator of app.py\<close>

text \<open>
  The program polls a fixed list of feeds, stores the entries it has not seen yet as
  Article rows, and serves the rows as a page and as a derived RSS document.  The
  libraries it calls (requests, feedparser, datetime, time, pytz) are not part of the
  program: what the program needs from them is collected in the record \<open>world\<close>, and
  the functions of app.py that call them take that record as their first argument.
  The database is SQLite (line 14 of app.py); its ordering and its LIKE operator are
  written out below.
\<close>

subsection \<open>Strings\<close>

text \<open>
  A Python string is a list of Unicode code points.  \<open>lit\<close> turns a literal of the
  source into such a list.
\<close>

type_synonym str = "nat list"

definition lit :: "string \<Rightarrow> str" where
  "lit cs = map of_char cs"

subsection \<open>Exceptions\<close>

datatype exception =
    AttributeError string
  | ConnectionError
  | Timeout
  | ValueError
  | OverflowError
  | OSError

subsection \<open>Dates\<close>

text \<open>
  A datetime is the reading of its calendar fields, counted in seconds from
  1970-01-01 00:00:00, and its tzinfo: \<open>None\<close> for a naive value.  The only zone object
  of the program is \<open>amsterdam_tz\<close>.  The type holds the years 1 to 9999:
  \<open>representable\<close> says that a reading lies between 0001-01-01 00:00:00 and
  9999-12-31 23:59:59.
\<close>

datatype tzinfo = Europe_Amsterdam

record datetime =
  wall :: int
  tzinfo :: "tzinfo option"

type_synonym struct_time = "int \<times> int \<times> int \<times> int \<times> int \<times> int \<times> int \<times> int \<times> int"

definition amsterdam_tz :: tzinfo where
  "amsterdam_tz = Europe_Amsterdam"

definition representable :: "int \<Rightarrow> bool" where
  "representable x \<longleftrightarrow> - 62135596800 \<le> x \<and> x \<le> 253402300799"

subsection \<open>The Article model and raw feed entries\<close>

text \<open>
  The columns of class Article.  \<open>published\<close> and \<open>summary\<close> are nullable.
  The column \<open>id\<close> is called \<open>id_col\<close> here.
\<close>

record article =
  id_col :: nat
  title :: str
  link :: str
  published :: "datetime option"
  summary :: "str option"

text \<open>
  A parsed entry is a dictionary whose keys may be missing: the program tests
  \<open>'pubDate' in entry\<close>, \<open>'published_parsed' in entry\<close>, \<open>'summary' in entry\<close> and
  \<open>'description' in entry\<close>, and reads \<open>entry.link\<close> and \<open>entry.title\<close> without a
  test.  A key that is present under \<open>published_parsed\<close> may hold \<open>None\<close>.
\<close>

record entry =
  entry_title :: "str option"
  entry_link :: "str option"
  entry_pubDate :: "str option"
  entry_published_parsed :: "struct_time option option"
  entry_summary :: "str option"
  entry_description :: "str option"

record response =
  status_code :: nat
  resp_text :: str

subsection \<open>What the program takes from its libraries\<close>

text \<open>
  \<^item> \<open>requests_get url headers\<close>: the response, or the exception requests raises;
  \<^item> \<open>feedparser_parse body\<close>: the entries of the parsed document;
  \<^item> \<open>strptime s\<close>: \<open>datetime.strptime(s, "%a, %d %b %Y %H:%M:%S %z")\<close>, the reading of
    the fields and the offset of \<open>%z\<close>, or \<open>None\<close> for ValueError;
  \<^item> \<open>mktime t\<close>: \<open>time.mktime(t)\<close>, the timestamp of a time tuple read in the local
    zone of the server, or the exception it raises;
  \<^item> \<open>timestamp_error t\<close>: the exception \<open>datetime.fromtimestamp\<close> raises for a timestamp
    outside the years 1 to 9999 (ValueError, OverflowError or OSError, by how far
    outside it lies);
  \<^item> \<open>utcoffset_amsterdam t\<close>: the offset of Europe/Amsterdam at timestamp \<open>t\<close>;
  \<^item> \<open>strftime d\<close>: \<open>d.strftime('%a, %d %b %Y %H:%M:%S %z')\<close>.
\<close>

record world =
  requests_get :: "str \<Rightarrow> (str \<times> str) list \<Rightarrow> exception + response"
  feedparser_parse :: "str \<Rightarrow> entry list"
  strptime :: "str \<Rightarrow> (int \<times> int) option"
  mktime :: "struct_time \<Rightarrow> exception + int"
  timestamp_error :: "int \<Rightarrow> exception"
  utcoffset_amsterdam :: "int \<Rightarrow> int"
  strftime :: "datetime \<Rightarrow> str"

text \<open>
  \<open>datetime.utcnow()\<close> at clock reading \<open>now\<close> (a timestamp): naive, the UTC fields.
  The clock of the server is taken to read a time the type can hold, and to stand
  still during a pass.
\<close>

definition utcnow :: "int \<Rightarrow> datetime" where
  "utcnow now = \<lparr>wall = now, tzinfo = None\<rparr>"

text \<open>\<open>datetime.now(amsterdam_tz)\<close>\<close>

definition now_amsterdam :: "world \<Rightarrow> int \<Rightarrow> datetime" where
  "now_amsterdam w now = \<lparr>wall = now + utcoffset_amsterdam w now, tzinfo = Some amsterdam_tz\<rparr>"

text \<open>
  \<open>datetime.fromtimestamp(t, amsterdam_tz)\<close>: the UTC reading of \<open>t\<close> is built first
  and fails outside the years 1 to 9999; adding the offset of the zone raises
  OverflowError when the sum leaves that range.
\<close>

definition fromtimestamp :: "world \<Rightarrow> int \<Rightarrow> exception + datetime" where
  "fromtimestamp w t =
     (if \<not> representable t then Inl (timestamp_error w t)
      else if \<not> representable (t + utcoffset_amsterdam w t) then Inl OverflowError
      else Inr \<lparr>wall = t + utcoffset_amsterdam w t, tzinfo = Some amsterdam_tz\<rparr>)"

text \<open>
  \<open>d.astimezone(amsterdam_tz)\<close> for the aware value strptime returns: the offset of
  \<open>d\<close> is subtracted, the offset of the zone is added, and each of the two steps
  raises OverflowError when its result leaves the years 1 to 9999.
\<close>

definition astimezone :: "world \<Rightarrow> int \<times> int \<Rightarrow> exception + datetime" where
  "astimezone w d =
     (case d of (secs, off) \<Rightarrow>
        if \<not> representable (secs - off) then Inl OverflowError
        else if \<not> representable (secs - off + utcoffset_amsterdam w (secs - off))
        then Inl OverflowError
        else Inr \<lparr>wall = secs - off + utcoffset_amsterdam w (secs - off),
                  tzinfo = Some amsterdam_tz\<rparr>)"

subsection \<open>The application state\<close>

text \<open>
  The rows of table article in the order of their ids, which is the order of their
  insertion (the session flushes a pending row before the next query of the pass reads
  the table), and the global \<open>last_reload\<close>.
\<close>

record app_state =
  articles :: "article list"
  last_reload :: "datetime option"

definition next_id :: "article list \<Rightarrow> nat" where
  "next_id rows = Suc (fold max (map id_col rows) 0)"

text \<open>
  A DateTime column of SQLite keeps the calendar fields of a value and drops its
  tzinfo: what is read back from the table is naive.
\<close>

definition sqlite_datetime :: "datetime \<Rightarrow> datetime" where
  "sqlite_datetime d = d\<lparr>tzinfo := None\<rparr>"

definition session_add :: "article list \<Rightarrow> str \<Rightarrow> str \<Rightarrow> datetime \<Rightarrow> str \<Rightarrow> article list" where
  "session_add rows t l p s =
     rows @ [\<lparr>id_col = next_id rows, title = t, link = l,
              published = Some (sqlite_datetime p), summary = Some s\<rparr>]"

text \<open>\<open>Article.query.filter_by(link=l).first()\<close>\<close>

definition filter_by_link_first :: "str \<Rightarrow> article list \<Rightarrow> article option" where
  "filter_by_link_first l rows =
     (case filter (\<lambda>a. link a = l) rows of [] \<Rightarrow> None | a # _ \<Rightarrow> Some a)"

subsection \<open>get_feed\<close>

definition headers :: "(str \<times> str) list" where
  "headers = [(lit ''User-Agent'',
     lit ''Mozilla/5.0 (Windows NT 10.0; Win64; x64) '' @
     lit ''AppleWebKit/537.36 (KHTML, like Gecko) '' @
     lit ''Chrome/91.0.4472.124 Safari/537.36'')]"

definition get_feed :: "world \<Rightarrow> str \<Rightarrow> exception + entry list" where
  "get_feed w url =
     (case requests_get w url headers of
        Inl e \<Rightarrow> Inl e
      | Inr resp \<Rightarrow> Inr (feedparser_parse w (resp_text resp)))"

subsection \<open>update_feed\<close>

definition RSS_FEEDS :: "str list" where
  "RSS_FEEDS =
    [lit ''https://feeds.nos.nl/nosnieuwsalgemeen'',
     lit ''https://www.nrc.nl/rss/'',
     lit ''https://fd.nl/?rss'',
     lit ''https://www.nu.nl/rss/algemeen'',
     lit ''https://www.ad.nl/home/rss.xml'',
     lit ''https://www.volkskrant.nl/voorpagina/rss.xml'',
     lit ''https://www.volkskrant.nl/nieuws-achtergrond/rss.xml'',
     lit ''https://www.volkskrant.nl/columns-opinie/rss.xml'',
     lit ''https://www.telegraaf.nl/rss'',
     lit ''https://www.trouw.nl/voorpagina/rss.xml'']"

text \<open>
  Lines 71 to 81: the value of \<open>published_dt\<close>, or the exception that leaves the
  statement.  The handler of line 76 catches ValueError only.  Line 79 stands outside
  the \<open>try\<close>.
\<close>

definition published_dt :: "world \<Rightarrow> int \<Rightarrow> entry \<Rightarrow> exception + datetime" where
  "published_dt w now e =
     (case entry_pubDate e of
        Some s \<Rightarrow>
          (case strptime w s of
             None \<Rightarrow> Inr (utcnow now)
           | Some d \<Rightarrow>
               (case astimezone w d of
                  Inl x \<Rightarrow> if x = ValueError then Inr (utcnow now) else Inl x
                | Inr dt \<Rightarrow> Inr dt))
      | None \<Rightarrow>
          (case entry_published_parsed e of
             Some (Some t) \<Rightarrow>
               (case mktime w t of
                  Inl x \<Rightarrow> Inl x
                | Inr ts \<Rightarrow> fromtimestamp w ts)
           | _ \<Rightarrow> Inr (utcnow now)))"

text \<open>Line 84: the value of \<open>summary_text\<close>.\<close>

definition summary_text :: "entry \<Rightarrow> str" where
  "summary_text e =
     (case entry_summary e of
        Some s \<Rightarrow> s
      | None \<Rightarrow> (case entry_description e of Some d \<Rightarrow> d | None \<Rightarrow> []))"

text \<open>
  The loop over \<open>feed.entries\<close>, in the order of its statements: the link is read
  and looked up, the date is resolved, the title is read, the row is added.  A missing
  \<open>entry.link\<close> or \<open>entry.title\<close> raises AttributeError, which nothing in update_feed
  catches.
\<close>

fun process_entries :: "world \<Rightarrow> int \<Rightarrow> entry list \<Rightarrow> article list \<Rightarrow> exception + article list" where
  "process_entries w now [] rows = Inr rows"
| "process_entries w now (e # es) rows =
     (case entry_link e of
        None \<Rightarrow> Inl (AttributeError ''link'')
      | Some l \<Rightarrow>
          (case filter_by_link_first l rows of
             Some _ \<Rightarrow> process_entries w now es rows
           | None \<Rightarrow>
               (case published_dt w now e of
                  Inl x \<Rightarrow> Inl x
                | Inr p \<Rightarrow>
                    (case entry_title e of
                       None \<Rightarrow> Inl (AttributeError ''title'')
                     | Some t \<Rightarrow>
                         process_entries w now es
                           (session_add rows t l p (summary_text e))))))"

text \<open>The loop over \<open>RSS_FEEDS\<close>.\<close>

fun process_feeds :: "world \<Rightarrow> int \<Rightarrow> str list \<Rightarrow> article list \<Rightarrow> exception + article list" where
  "process_feeds w now [] rows = Inr rows"
| "process_feeds w now (rss_url # urls) rows =
     (case get_feed w rss_url of
        Inl e \<Rightarrow> Inl e
      | Inr feed_entries \<Rightarrow>
          (if feed_entries = [] then process_feeds w now urls rows
           else (case process_entries w now feed_entries rows of
                   Inl e \<Rightarrow> Inl e
                 | Inr rows' \<Rightarrow> process_feeds w now urls rows')))"

text \<open>
  update_feed commits once, after the last feed.  An exception leaves the function
  before the commit: the session is discarded with its pending rows and \<open>last_reload\<close>
  is not assigned.  The result is the exception, if any, and the state afterwards.
\<close>

definition update_feed :: "world \<Rightarrow> int \<Rightarrow> app_state \<Rightarrow> exception option \<times> app_state" where
  "update_feed w now st =
     (case process_feeds w now RSS_FEEDS (articles st) of
        Inl e \<Rightarrow> (Some e, st)
      | Inr rows' \<Rightarrow>
          (None, st\<lparr>articles := rows', last_reload := Some (now_amsterdam w now)\<rparr>))"

text \<open>
  The passes the program runs one after the other: the one at start-up and one per
  tick of the scheduler, each in the world and at the clock reading of its time.
\<close>

fun run_passes :: "(world \<times> int) list \<Rightarrow> app_state \<Rightarrow> app_state" where
  "run_passes [] st = st"
| "run_passes ((w, now) # ps) st = run_passes ps (snd (update_feed w now st))"

subsection \<open>The queries of the two routes\<close>

text \<open>
  \<open>ORDER BY published DESC\<close> compares the stored values, NULL below every value.
  SQLite reads the table in the order of the ids and sorts what it reads, keeping
  the order of reading among rows with equal \<open>published\<close>: each row, from the last to
  the first, is put in front of the rows read after it that are not newer.
\<close>

definition pub_key :: "article \<Rightarrow> int option" where
  "pub_key a = map_option wall (published a)"

fun insert_desc :: "article \<Rightarrow> article list \<Rightarrow> article list" where
  "insert_desc a [] = [a]"
| "insert_desc a (b # bs) =
     (if pub_key b \<le> pub_key a then a # b # bs else b # insert_desc a bs)"

definition order_by_published_desc :: "article list \<Rightarrow> article list" where
  "order_by_published_desc rows = foldr insert_desc rows []"

definition limit :: "nat \<Rightarrow> article list \<Rightarrow> article list" where
  "limit n rows = take n rows"

text \<open>
  \<open>col.ilike(pattern)\<close> is rendered for SQLite as \<open>lower(col) LIKE lower(pattern)\<close>.
  \<open>lower\<close> folds the letters A to Z.  LIKE reads pattern and text up to their first
  NUL; in the pattern \<open>%\<close> (code point 37) matches any run of characters and \<open>_\<close>
  (code point 95) any one character.
\<close>

definition ascii_lower :: "nat \<Rightarrow> nat" where
  "ascii_lower c = (if 65 \<le> c \<and> c \<le> 90 then c + 32 else c)"

definition lower :: "str \<Rightarrow> str" where
  "lower s = map ascii_lower s"

fun pattern_compare :: "str \<Rightarrow> str \<Rightarrow> bool" where
  "pattern_compare [] [] = True"
| "pattern_compare [] (c # s) = False"
| "pattern_compare (p # ps) [] = (p = 37 \<and> pattern_compare ps [])"
| "pattern_compare (p # ps) (c # s) =
     (if p = 37 then pattern_compare ps (c # s) \<or> pattern_compare (p # ps) s
      else (p = 95 \<or> p = c) \<and> pattern_compare ps s)"

definition c_string :: "str \<Rightarrow> str" where
  "c_string s = takeWhile (\<lambda>c. c \<noteq> 0) s"

definition sql_like :: "str \<Rightarrow> str \<Rightarrow> bool" where
  "sql_like pat s = pattern_compare (c_string pat) (c_string s)"

definition ilike :: "str \<Rightarrow> str \<Rightarrow> bool" where
  "ilike col pat = sql_like (lower pat) (lower col)"

definition search_filter :: "str \<Rightarrow> article \<Rightarrow> bool" where
  "search_filter search a \<longleftrightarrow>
     ilike (title a) (lit ''%'' @ search @ lit ''%'') \<or>
     (case summary a of None \<Rightarrow> False | Some s \<Rightarrow> ilike s (lit ''%'' @ search @ lit ''%''))"

subsection \<open>index\<close>

definition index :: "app_state \<Rightarrow> article list \<times> datetime option" where
  "index st = (limit 25 (order_by_published_desc (articles st)), last_reload st)"

subsection \<open>rss_feed\<close>

text \<open>
  \<open>str.isspace\<close>: the characters \<open>strip()\<close> removes from both ends of a string.
\<close>

definition isspace :: "nat \<Rightarrow> bool" where
  "isspace c \<longleftrightarrow>
     (9 \<le> c \<and> c \<le> 13) \<or> (28 \<le> c \<and> c \<le> 32) \<or> c = 133 \<or> c = 160 \<or> c = 5760 \<or>
     (8192 \<le> c \<and> c \<le> 8202) \<or> c = 8232 \<or> c = 8233 \<or> c = 8239 \<or> c = 8287 \<or> c = 12288"

definition strip :: "str \<Rightarrow> str" where
  "strip s = rev (dropWhile isspace (rev (dropWhile isspace s)))"

text \<open>\<open>request.args.get('q', '').strip()\<close>\<close>

definition search_term :: "str option \<Rightarrow> str" where
  "search_term q = strip (case q of None \<Rightarrow> [] | Some v \<Rightarrow> v)"

definition rss_articles :: "app_state \<Rightarrow> str option \<Rightarrow> article list" where
  "rss_articles st q =
     (let search = search_term q
      in if search \<noteq> []
         then limit 10 (order_by_published_desc (filter (search_filter search) (articles st)))
         else limit 10 (order_by_published_desc (articles st)))"

definition nl :: str where
  "nl = [10]"

definition pub_date :: "world \<Rightarrow> article \<Rightarrow> str" where
  "pub_date w a = (case published a of Some d \<Rightarrow> strftime w d | None \<Rightarrow> [])"

text \<open>An f-string writes a NULL summary as \<open>None\<close>.\<close>

definition str_summary :: "article \<Rightarrow> str" where
  "str_summary a = (case summary a of Some s \<Rightarrow> s | None \<Rightarrow> lit ''None'')"

definition feed_item :: "world \<Rightarrow> article \<Rightarrow> str" where
  "feed_item w a =
     nl @ lit ''        <item>'' @
     nl @ lit ''            <title>'' @ title a @ lit ''</title>'' @
     nl @ lit ''            <link>'' @ link a @ lit ''</link>'' @
     nl @ lit ''            <description><![CDATA['' @ str_summary a @ lit '']]></description>'' @
     nl @ lit ''            <pubDate>'' @ pub_date w a @ lit ''</pubDate>'' @
     nl @ lit ''            <guid>'' @ link a @ lit ''</guid>'' @
     nl @ lit ''        </item>'' @
     nl @ lit ''        ''"

definition rss_feed_xml :: "world \<Rightarrow> article list \<Rightarrow> str" where
  "rss_feed_xml w arts =
     lit ''<?xml version='' @ [34] @ lit ''1.0'' @ [34] @ lit '' encoding='' @ [34] @
       lit ''UTF-8'' @ [34] @ lit ''?>'' @
     nl @ lit ''<rss version='' @ [34] @ lit ''2.0'' @ [34] @ lit ''>'' @
     nl @ lit ''  <channel>'' @
     nl @ lit ''    <title>My Custom RSS Feed</title>'' @
     nl @ lit ''    <link>http://yourdomain.com/rss</link>'' @
     nl @ lit ''    <description>This is a custom RSS feed generated from our articles.</description>'' @
     nl @ lit ''    '' @ concat (map (feed_item w) arts) @
     nl @ lit ''  </channel>'' @
     nl @ lit ''</rss>'' @
     nl @ lit ''    ''"

definition rss_feed :: "world \<Rightarrow> app_state \<Rightarrow> str option \<Rightarrow> str" where
  "rss_feed w st q = rss_feed_xml w (rss_articles st q)"

subsection \<open>The search as the specification words it\<close>

text \<open>
  This definition follows the words of the specification, not the code: the term is
  a case-insensitive substring of the text.  It is what \<open>search_filter\<close> is compared
  with.
\<close>

definition spec_case_insensitive_substring :: "str \<Rightarrow> str \<Rightarrow> bool" where
  "spec_case_insensitive_substring t s = sublist (lower t) (lower s)"

section \<open>Test doubles\<close>

text \<open>
  Concrete worlds, entries and states on which the theorems below are instantiated.

  In a test world the body of a response is the URL it was fetched from, and the parser
  looks the body up in a table of feeds.  strptime knows two strings, the second of
  them the last second of the year 9999 in a zone one hour behind UTC.  The local zone of the server is UTC:
  mktime returns the timestamp of 2024-01-01 12:00:00 UTC, and for the last second of
  the year 9999 the timestamp of that second.  The offset of Amsterdam is one hour,
  and strftime prints the fields of 2024-01-01 13:00:00 with the empty \<open>%z\<close> of a naive
  value, which is the value of \<open>published\<close> of \<open>art2\<close> and \<open>art3\<close>.
\<close>

definition test_strptime :: "str \<Rightarrow> (int \<times> int) option" where
  "test_strptime s =
     (if s = lit ''Mon, 01 Jan 2024 12:00:00 +0000'' then Some (1704110400, 0)
      else if s = lit ''Fri, 31 Dec 9999 23:59:59 -0100'' then Some (253402300799, - 3600)
      else None)"

definition test_mktime :: "struct_time \<Rightarrow> exception + int" where
  "test_mktime t =
     (if t = (9999, 12, 31, 23, 59, 59, 4, 365, 0) then Inr 253402300799 else Inr 1704110400)"

definition test_parse :: "(str \<times> entry list) list \<Rightarrow> str \<Rightarrow> entry list" where
  "test_parse feeds body = (case map_of feeds body of Some es \<Rightarrow> es | None \<Rightarrow> [])"

definition test_world :: "(str \<Rightarrow> exception + response) \<Rightarrow> (str \<times> entry list) list \<Rightarrow> world" where
  "test_world fetch feeds =
     \<lparr>requests_get = (\<lambda>url hs. fetch url),
      feedparser_parse = test_parse feeds,
      strptime = test_strptime,
      mktime = test_mktime,
      timestamp_error = (\<lambda>t. ValueError),
      utcoffset_amsterdam = (\<lambda>t. 3600),
      strftime = (\<lambda>d. lit ''Mon, 01 Jan 2024 13:00:00 '')\<rparr>"

definition fetch_ok :: "str \<Rightarrow> exception + response" where
  "fetch_ok url = Inr \<lparr>status_code = 200, resp_text = url\<rparr>"


definition entry_storm :: entry where
  "entry_storm =
     \<lparr>entry_title = Some (lit ''Storm warning issued''), entry_link = Some (lit ''http://x/1''),
      entry_pubDate = None, entry_published_parsed = None,
      entry_summary = Some (lit ''Heavy rain expected''), entry_description = None\<rparr>"

definition entry_storm_again :: entry where
  "entry_storm_again = entry_storm\<lparr>entry_title := Some (lit ''Storm warning lifted'')\<rparr>"

definition empty_state :: app_state where
  "empty_state = \<lparr>articles = [], last_reload = None\<rparr>"

definition world_two_storms :: world where
  "world_two_storms =
     test_world fetch_ok
       [(lit ''https://feeds.nos.nl/nosnieuwsalgemeen'', [entry_storm, entry_storm_again]),
        (lit ''https://www.nrc.nl/rss/'', [entry_storm_again])]"



definition entry_no_link :: entry where
  "entry_no_link = entry_storm\<lparr>entry_link := None\<rparr>"


definition entry_bare :: entry where
  "entry_bare =
     \<lparr>entry_title = Some (lit ''Dijk doorgebroken''), entry_link = Some (lit ''http://x/2''),
      entry_pubDate = None, entry_published_parsed = None,
      entry_summary = None, entry_description = None\<rparr>"

definition entry_bad_pubDate :: entry where
  "entry_bad_pubDate =
     entry_bare\<lparr>entry_pubDate := Some (lit ''2024-01-01T12:00:00Z''),
       entry_published_parsed := Some (Some (2024, 1, 1, 12, 0, 0, 0, 1, 0))\<rparr>"

definition entry_year_9999 :: entry where
  "entry_year_9999 =
     entry_bare\<lparr>entry_published_parsed := Some (Some (9999, 12, 31, 23, 59, 59, 4, 365, 0))\<rparr>"

definition world_no_link :: world where
  "world_no_link =
     test_world fetch_ok
       [(lit ''https://feeds.nos.nl/nosnieuwsalgemeen'', [entry_storm, entry_no_link])]"


definition world_year_9999 :: world where
  "world_year_9999 =
     test_world fetch_ok
       [(lit ''https://feeds.nos.nl/nosnieuwsalgemeen'', [entry_storm, entry_year_9999])]"

definition art1 :: article where
  "art1 = \<lparr>id_col = 1, title = lit ''Storm warning issued'', link = lit ''http://x/1'',
            published = Some \<lparr>wall = 1704110460, tzinfo = None\<rparr>,
            summary = Some (lit ''Heavy rain expected'')\<rparr>"

definition art2 :: article where
  "art2 = \<lparr>id_col = 2, title = lit ''Dijk doorgebroken'', link = lit ''http://x/2'',
            published = Some \<lparr>wall = 1704114000, tzinfo = None\<rparr>,
            summary = Some []\<rparr>"

definition art3 :: article where
  "art3 = \<lparr>id_col = 3, title = lit ''Q&A met de minister'', link = lit ''http://x/3'',
            published = Some \<lparr>wall = 1704114000, tzinfo = None\<rparr>,
            summary = Some (lit ''Vragen'')\<rparr>"

definition state_three :: app_state where
  "state_three = \<lparr>articles = [art1, art2, art3], last_reload = None\<rparr>"



section \<open>Properties\<close>

lemma lit_eq_iff [simp]: "lit a = lit b \<longleftrightarrow> a = b"
  by (simp add: lit_def inj_map_eq_map inj_on_def)

subsection \<open>One step of the loop over the entries\<close>

lemma filter_by_link_first_None:
  "filter_by_link_first l rows = None \<longleftrightarrow> l \<notin> set (map link rows)"
proof (cases "filter (\<lambda>a. link a = l) rows")
  case Nil
  then have "\<forall>a \<in> set rows. link a \<noteq> l" by (simp add: filter_empty_conv)
  with Nil show ?thesis by (auto simp: filter_by_link_first_def)
next
  case (Cons a as)
  then have "a \<in> set (filter (\<lambda>a. link a = l) rows)" by simp
  then have "a \<in> set rows" and "link a = l" by simp_all
  with Cons show ?thesis by (auto simp: filter_by_link_first_def)
qed

lemma process_entries_step:
  assumes run: "process_entries w now (e # es) rows = Inr rows'"
  obtains (seen) l where "entry_link e = Some l" and "l \<in> set (map link rows)"
      and "process_entries w now es rows = Inr rows'"
    | (new) l t p where "entry_link e = Some l" and "l \<notin> set (map link rows)"
      and "entry_title e = Some t" and "published_dt w now e = Inr p"
      and "process_entries w now es (session_add rows t l p (summary_text e)) = Inr rows'"
proof -
  obtain l where l: "entry_link e = Some l"
    using run by (cases "entry_link e") auto
  show thesis
  proof (cases "filter_by_link_first l rows")
    case (Some a)
    then have "l \<in> set (map link rows)"
      using filter_by_link_first_None [of l rows] by simp
    moreover from run l Some have "process_entries w now es rows = Inr rows'" by simp
    ultimately show thesis using l by (rule_tac seen)
  next
    case None
    then have fresh: "l \<notin> set (map link rows)"
      by (simp add: filter_by_link_first_None)
    obtain p where p: "published_dt w now e = Inr p"
      using run l None by (cases "published_dt w now e") auto
    obtain t where t: "entry_title e = Some t"
      using run l None p by (cases "entry_title e") auto
    from run l None p t
    have "process_entries w now es (session_add rows t l p (summary_text e)) = Inr rows'"
      by simp
    with l fresh t p show thesis by (rule_tac new)
  qed
qed

subsection \<open>A pass only appends rows\<close>

lemma process_entries_prefix:
  "process_entries w now es rows = Inr rows' \<Longrightarrow> prefix rows rows'"
proof (induction es arbitrary: rows)
  case Nil
  then show ?case by simp
next
  case (Cons e es)
  from Cons.prems show ?case
  proof (cases rule: process_entries_step)
    case (seen l)
    then show ?thesis by (auto intro: Cons.IH)
  next
    case (new l t p)
    then have "prefix (session_add rows t l p (summary_text e)) rows'"
      by (auto intro: Cons.IH)
    then show ?thesis
      unfolding session_add_def by (rule append_prefixD)
  qed
qed

lemma process_feeds_prefix:
  "process_feeds w now urls rows = Inr rows' \<Longrightarrow> prefix rows rows'"
proof (induction urls arbitrary: rows)
  case Nil
  then show ?case by simp
next
  case (Cons u urls)
  then show ?case
    by (auto split: sum.splits if_splits dest!: process_entries_prefix intro: prefix_order.trans)
qed

lemma update_feed_prefix: "prefix (articles st) (articles (snd (update_feed w now st)))"
  by (auto simp: update_feed_def split: sum.splits dest: process_feeds_prefix)

lemma run_passes_prefix: "prefix (articles st) (articles (run_passes ps st))"
proof (induction ps arbitrary: st)
  case Nil
  show ?case by simp
next
  case (Cons p ps)
  obtain w now where p: "p = (w, now)" by (cases p)
  have "prefix (articles st) (articles (snd (update_feed w now st)))"
    by (rule update_feed_prefix)
  also have "prefix \<dots> (articles (run_passes ps (snd (update_feed w now st))))"
    by (rule Cons.IH)
  finally show ?case by (simp add: p)
qed

subsection \<open>Links stay unique\<close>

lemma process_entries_distinct:
  "process_entries w now es rows = Inr rows' \<Longrightarrow> distinct (map link rows)
   \<Longrightarrow> distinct (map link rows')"
proof (induction es arbitrary: rows)
  case Nil
  then show ?case by simp
next
  case (Cons e es)
  from Cons.prems(1) show ?case
  proof (cases rule: process_entries_step)
    case (seen l)
    then show ?thesis using Cons.prems(2) by (auto intro: Cons.IH)
  next
    case (new l t p)
    let ?rows = "session_add rows t l p (summary_text e)"
    have "distinct (map link ?rows)"
      using new(2) Cons.prems(2) by (simp add: session_add_def)
    with new(5) show ?thesis by (rule Cons.IH)
  qed
qed

lemma process_entries_links:
  "process_entries w now es rows = Inr rows' \<Longrightarrow> e \<in> set es \<Longrightarrow> entry_link e = Some l
   \<Longrightarrow> l \<in> set (map link rows')"
proof (induction es arbitrary: rows)
  case Nil
  then show ?case by simp
next
  case (Cons e' es)
  from Cons.prems(1) show ?case
  proof (cases rule: process_entries_step)
    case (seen l')
    show ?thesis
    proof (cases "e = e'")
      case True
      with seen(1) Cons.prems(3) have "l' = l" by simp
      with seen(2) have "l \<in> set (map link rows)" by simp
      moreover have "prefix rows rows'" using seen(3) by (rule process_entries_prefix)
      ultimately show ?thesis by (auto simp: prefix_def)
    next
      case False
      with Cons.prems(2) have "e \<in> set es" by simp
      with seen(3) show ?thesis using Cons.prems(3) by (rule Cons.IH)
    qed
  next
    case (new l' t p)
    let ?rows = "session_add rows t l' p (summary_text e')"
    show ?thesis
    proof (cases "e = e'")
      case True
      with new(1) Cons.prems(3) have "l' = l" by simp
      then have "l \<in> set (map link ?rows)" by (simp add: session_add_def)
      moreover have "prefix ?rows rows'" using new(5) by (rule process_entries_prefix)
      ultimately show ?thesis by (auto simp: prefix_def)
    next
      case False
      with Cons.prems(2) have "e \<in> set es" by simp
      with new(5) show ?thesis using Cons.prems(3) by (rule Cons.IH)
    qed
  qed
qed

lemma process_feeds_distinct:
  "process_feeds w now urls rows = Inr rows' \<Longrightarrow> distinct (map link rows)
   \<Longrightarrow> distinct (map link rows')"
proof (induction urls arbitrary: rows)
  case Nil
  then show ?case by simp
next
  case (Cons u urls)
  then show ?case
    by (auto split: sum.splits if_splits dest: process_entries_distinct)
qed

lemma process_feeds_links:
  "process_feeds w now urls rows = Inr rows' \<Longrightarrow> url \<in> set urls \<Longrightarrow> get_feed w url = Inr es
   \<Longrightarrow> e \<in> set es \<Longrightarrow> entry_link e = Some l \<Longrightarrow> l \<in> set (map link rows')"
proof (induction urls arbitrary: rows)
  case Nil
  then show ?case by simp
next
  case (Cons u urls)
  obtain es' where es': "get_feed w u = Inr es'"
    using Cons.prems(1) by (cases "get_feed w u") auto
  show ?case
  proof (cases "es' = []")
    case True
    with es' Cons.prems(1) have run: "process_feeds w now urls rows = Inr rows'" by simp
    from True es' Cons.prems(3,4) have "url \<noteq> u" by auto
    with Cons.prems(2) have "url \<in> set urls" by simp
    with run show ?thesis using Cons.prems(3,4,5) by (rule Cons.IH)
  next
    case False
    obtain rows1 where r1: "process_entries w now es' rows = Inr rows1"
      using Cons.prems(1) es' False by (cases "process_entries w now es' rows") auto
    with es' False Cons.prems(1) have run: "process_feeds w now urls rows1 = Inr rows'" by simp
    show ?thesis
    proof (cases "url = u")
      case True
      with es' Cons.prems(3) have "es' = es" by simp
      with r1 Cons.prems(4,5) have "l \<in> set (map link rows1)"
        by (auto dest: process_entries_links)
      moreover have "prefix rows1 rows'" using run by (rule process_feeds_prefix)
      ultimately show ?thesis by (auto simp: prefix_def)
    next
      case False
      with Cons.prems(2) have "url \<in> set urls" by simp
      with run show ?thesis using Cons.prems(3,4,5) by (rule Cons.IH)
    qed
  qed
qed

lemma update_feed_distinct:
  "distinct (map link (articles st)) \<Longrightarrow> distinct (map link (articles (snd (update_feed w now st))))"
  by (auto simp: update_feed_def split: sum.splits dest: process_feeds_distinct)

lemma update_feed_links:
  "fst (update_feed w now st) = None \<Longrightarrow> url \<in> set RSS_FEEDS \<Longrightarrow> get_feed w url = Inr es
   \<Longrightarrow> e \<in> set es \<Longrightarrow> entry_link e = Some l
   \<Longrightarrow> l \<in> set (map link (articles (snd (update_feed w now st))))"
  by (auto simp: update_feed_def split: sum.splits dest: process_feeds_links)

lemma run_passes_distinct:
  "distinct (map link (articles st)) \<Longrightarrow> distinct (map link (articles (run_passes ps st)))"
proof (induction ps arbitrary: st)
  case Nil
  then show ?case by simp
next
  case (Cons p ps)
  obtain w now where p: "p = (w, now)" by (cases p)
  from Cons.prems have "distinct (map link (articles (snd (update_feed w now st))))"
    by (rule update_feed_distinct)
  then show ?case unfolding p run_passes.simps by (rule Cons.IH)
qed

lemma run_passes_append:
  "run_passes (ps1 @ ps2) st = run_passes ps2 (run_passes ps1 st)"
  by (induction ps1 arbitrary: st) auto

lemma distinct_count_one:
  "distinct (map f xs) \<Longrightarrow> l \<in> set (map f xs) \<Longrightarrow> length (filter (\<lambda>a. f a = l) xs) = 1"
proof (induction xs)
  case Nil
  then show ?case by simp
next
  case (Cons x xs)
  show ?case
  proof (cases "f x = l")
    case True
    with Cons.prems(1) have "l \<notin> f ` set xs" by simp
    then have "\<forall>a \<in> set xs. f a \<noteq> l" by blast
    then have "filter (\<lambda>a. f a = l) xs = []" by (simp add: filter_empty_conv)
    with True show ?thesis by simp
  next
    case False
    with Cons show ?thesis by auto
  qed
qed

subsection \<open>Every link is stored once\<close>

text \<open>
  Claim C1.  Start from a table whose links are pairwise different (the empty table of
  a fresh database is one) and run any sequence of passes.  Afterwards the links are
  still pairwise different; and for every entry that carries a link and stood in a
  feed of a pass that ran to its commit, the table holds exactly one article with that
  link, however many entries of that pass or of other passes carried it.
\<close>

theorem update_feed_dedup:
  assumes d: "distinct (map link (articles st))"
  shows "distinct (map link (articles (run_passes ps st))) \<and>
    (\<forall>ps1 w now ps2 url es e l.
       ps = ps1 @ (w, now) # ps2 \<and>
       fst (update_feed w now (run_passes ps1 st)) = None \<and>
       url \<in> set RSS_FEEDS \<and> get_feed w url = Inr es \<and> e \<in> set es \<and> entry_link e = Some l
       \<longrightarrow> length (filter (\<lambda>a. link a = l) (articles (run_passes ps st))) = 1)"
proof (intro conjI allI impI)
  show dist: "distinct (map link (articles (run_passes ps st)))"
    using d by (rule run_passes_distinct)
  fix ps1 w now ps2 url es e l
  assume a: "ps = ps1 @ (w, now) # ps2 \<and>
       fst (update_feed w now (run_passes ps1 st)) = None \<and>
       url \<in> set RSS_FEEDS \<and> get_feed w url = Inr es \<and> e \<in> set es \<and> entry_link e = Some l"
  let ?st1 = "run_passes ps1 st"
  let ?st2 = "snd (update_feed w now ?st1)"
  from a have "l \<in> set (map link (articles ?st2))"
    by (blast intro: update_feed_links)
  moreover have "prefix (articles ?st2) (articles (run_passes ps2 ?st2))"
    by (rule run_passes_prefix)
  moreover from a have "run_passes ps st = run_passes ps2 ?st2"
    by (simp add: run_passes_append)
  ultimately have "l \<in> set (map link (articles (run_passes ps st)))"
    by (auto simp: prefix_def)
  with dist show "length (filter (\<lambda>a. link a = l) (articles (run_passes ps st))) = 1"
    by (rule distinct_count_one)
qed

lemma update_feed_two_storms:
  "update_feed world_two_storms 0 empty_state =
     (None, \<lparr>articles =
        [\<lparr>id_col = 1, title = lit ''Storm warning issued'', link = lit ''http://x/1'',
          published = Some \<lparr>wall = 0, tzinfo = None\<rparr>,
          summary = Some (lit ''Heavy rain expected'')\<rparr>],
        last_reload = Some \<lparr>wall = 3600, tzinfo = Some Europe_Amsterdam\<rparr>\<rparr>)"
  by (simp add: update_feed_def RSS_FEEDS_def get_feed_def test_world_def test_parse_def fetch_ok_def entry_storm_def entry_storm_again_def empty_state_def world_two_storms_def filter_by_link_first_def session_add_def next_id_def published_dt_def summary_text_def utcnow_def now_amsterdam_def sqlite_datetime_def amsterdam_tz_def)

theorem update_feed_dedup_witness:
  "distinct (map link (articles empty_state)) \<and>
   distinct (map link (articles
     (run_passes [(world_two_storms, 0), (world_two_storms, 60)] empty_state))) \<and>
   length (filter (\<lambda>a. link a = lit ''http://x/1'') (articles
     (run_passes [(world_two_storms, 0), (world_two_storms, 60)] empty_state))) = 1"
proof -
  let ?ps = "[(world_two_storms, 0), (world_two_storms, 60)]"
  have d: "distinct (map link (articles empty_state))"
    by (simp add: empty_state_def)
  have ok: "fst (update_feed world_two_storms 0 (run_passes [] empty_state)) = None"
    by (simp add: update_feed_two_storms)
  have url: "lit ''https://www.nrc.nl/rss/'' \<in> set RSS_FEEDS"
    by (simp add: RSS_FEEDS_def)
  have feed: "get_feed world_two_storms (lit ''https://www.nrc.nl/rss/'') = Inr [entry_storm_again]"
    by (simp add: get_feed_def world_two_storms_def test_world_def test_parse_def fetch_ok_def)
  have l: "entry_link entry_storm_again = Some (lit ''http://x/1'')"
    by (simp add: entry_storm_again_def entry_storm_def)
  from update_feed_dedup [OF d, of ?ps] ok url feed l
  have "distinct (map link (articles (run_passes ?ps empty_state)))"
    and "length (filter (\<lambda>a. link a = lit ''http://x/1'') (articles (run_passes ?ps empty_state))) = 1"
    by (blast, force)
  with d show ?thesis by blast
qed

subsection \<open>Stored rows are never touched again\<close>

text \<open>
  Claim C8.  The rows that are in the table before a pass are, unchanged and in the same
  order, the first rows of the table after the pass, and after any number of further
  passes: a pass inserts rows and neither updates nor deletes one.
\<close>

theorem update_feed_insert_only:
  "prefix (articles st) (articles (snd (update_feed w now st))) \<and>
   prefix (articles st) (articles (run_passes ps st))"
  using update_feed_prefix run_passes_prefix by blast

theorem update_feed_insert_only_witness:
  "prefix (articles (snd (update_feed world_two_storms 0 empty_state)))
     (articles (snd (update_feed world_two_storms 60
        (snd (update_feed world_two_storms 0 empty_state))))) \<and>
   articles (snd (update_feed world_two_storms 0 empty_state)) =
     [\<lparr>id_col = 1, title = lit ''Storm warning issued'', link = lit ''http://x/1'',
       published = Some \<lparr>wall = 0, tzinfo = None\<rparr>,
       summary = Some (lit ''Heavy rain expected'')\<rparr>]"
  using update_feed_insert_only [of "snd (update_feed world_two_storms 0 empty_state)"
      world_two_storms 60 "[]"]
  by (simp add: update_feed_two_storms)

subsection \<open>What an exception does to a pass\<close>










subsection \<open>The publication date\<close>

text \<open>
  Claim C6.  When \<open>pubDate\<close> is present and strptime raises ValueError, the result is
  the naive reading of the clock at ingestion; the time tuple is not used, whatever
  it holds.  When \<open>pubDate\<close> parses, the result is the parsed instant in the Amsterdam
  zone, or OverflowError when the conversion leaves the years 1 to 9999.  In every
  case with \<open>pubDate\<close> present, changing \<open>published_parsed\<close> does not change the result.
  The time tuple is used when \<open>pubDate\<close> is absent.
\<close>

theorem published_dt_pubDate_first:
  "(entry_pubDate e = Some s \<and> strptime w s = None
      \<longrightarrow> published_dt w now e = Inr \<lparr>wall = now, tzinfo = None\<rparr>) \<and>
   (entry_pubDate e = Some s \<and> strptime w s = Some (secs, off) \<and>
    - 62135596800 \<le> secs - off \<and> secs - off \<le> 253402300799 \<and>
    - 62135596800 \<le> secs - off + utcoffset_amsterdam w (secs - off) \<and>
    secs - off + utcoffset_amsterdam w (secs - off) \<le> 253402300799
      \<longrightarrow> published_dt w now e =
            Inr \<lparr>wall = secs - off + utcoffset_amsterdam w (secs - off),
                 tzinfo = Some Europe_Amsterdam\<rparr>) \<and>
   (entry_pubDate e = Some s \<and> strptime w s = Some (secs, off) \<and>
    (secs - off < - 62135596800 \<or> 253402300799 < secs - off \<or>
     secs - off + utcoffset_amsterdam w (secs - off) < - 62135596800 \<or>
     253402300799 < secs - off + utcoffset_amsterdam w (secs - off))
      \<longrightarrow> published_dt w now e = Inl OverflowError) \<and>
   (entry_pubDate e = Some s
      \<longrightarrow> published_dt w now (e\<lparr>entry_published_parsed := pp\<rparr>) = published_dt w now e) \<and>
   (entry_pubDate e = None \<and> entry_published_parsed e = Some (Some t) \<and> mktime w t = Inr ts \<and>
    - 62135596800 \<le> ts \<and> ts \<le> 253402300799 \<and>
    - 62135596800 \<le> ts + utcoffset_amsterdam w ts \<and> ts + utcoffset_amsterdam w ts \<le> 253402300799
      \<longrightarrow> published_dt w now e =
            Inr \<lparr>wall = ts + utcoffset_amsterdam w ts, tzinfo = Some Europe_Amsterdam\<rparr>)"
proof (intro conjI impI)
  assume "entry_pubDate e = Some s \<and> strptime w s = None"
  then show "published_dt w now e = Inr \<lparr>wall = now, tzinfo = None\<rparr>"
    by (simp add: published_dt_def utcnow_def)
next
  assume "entry_pubDate e = Some s \<and> strptime w s = Some (secs, off) \<and>
    - 62135596800 \<le> secs - off \<and> secs - off \<le> 253402300799 \<and>
    - 62135596800 \<le> secs - off + utcoffset_amsterdam w (secs - off) \<and>
    secs - off + utcoffset_amsterdam w (secs - off) \<le> 253402300799"
  then show "published_dt w now e =
            Inr \<lparr>wall = secs - off + utcoffset_amsterdam w (secs - off),
                 tzinfo = Some Europe_Amsterdam\<rparr>"
    by (simp add: published_dt_def astimezone_def representable_def amsterdam_tz_def)
next
  assume a: "entry_pubDate e = Some s \<and> strptime w s = Some (secs, off) \<and>
    (secs - off < - 62135596800 \<or> 253402300799 < secs - off \<or>
     secs - off + utcoffset_amsterdam w (secs - off) < - 62135596800 \<or>
     253402300799 < secs - off + utcoffset_amsterdam w (secs - off))"
  then have "astimezone w (secs, off) = Inl OverflowError"
    by (auto simp: astimezone_def representable_def)
  with a show "published_dt w now e = Inl OverflowError"
    by (simp add: published_dt_def)
next
  assume "entry_pubDate e = Some s"
  then show "published_dt w now (e\<lparr>entry_published_parsed := pp\<rparr>) = published_dt w now e"
    by (simp add: published_dt_def)
next
  assume "entry_pubDate e = None \<and> entry_published_parsed e = Some (Some t) \<and> mktime w t = Inr ts \<and>
    - 62135596800 \<le> ts \<and> ts \<le> 253402300799 \<and>
    - 62135596800 \<le> ts + utcoffset_amsterdam w ts \<and> ts + utcoffset_amsterdam w ts \<le> 253402300799"
  then show "published_dt w now e =
            Inr \<lparr>wall = ts + utcoffset_amsterdam w ts, tzinfo = Some Europe_Amsterdam\<rparr>"
    by (simp add: published_dt_def fromtimestamp_def representable_def amsterdam_tz_def)
qed

theorem published_dt_pubDate_first_witness:
  "entry_pubDate entry_bad_pubDate = Some (lit ''2024-01-01T12:00:00Z'') \<and>
   strptime world_no_link (lit ''2024-01-01T12:00:00Z'') = None \<and>
   entry_published_parsed entry_bad_pubDate = Some (Some (2024, 1, 1, 12, 0, 0, 0, 1, 0)) \<and>
   published_dt world_no_link 1704110460 entry_bad_pubDate =
     Inr \<lparr>wall = 1704110460, tzinfo = None\<rparr> \<and>
   published_dt world_no_link 1704110460 (entry_bad_pubDate\<lparr>entry_pubDate := None\<rparr>) =
     Inr \<lparr>wall = 1704114000, tzinfo = Some Europe_Amsterdam\<rparr> \<and>
   published_dt world_no_link 1704110460
       (entry_bad_pubDate\<lparr>entry_pubDate := Some (lit ''Mon, 01 Jan 2024 12:00:00 +0000'')\<rparr>) =
     Inr \<lparr>wall = 1704114000, tzinfo = Some Europe_Amsterdam\<rparr> \<and>
   published_dt world_no_link 1704110460
       (entry_bad_pubDate\<lparr>entry_pubDate := Some (lit ''Fri, 31 Dec 9999 23:59:59 -0100'')\<rparr>) =
     Inl OverflowError"
proof -
  let ?s = "lit ''2024-01-01T12:00:00Z''"
  let ?g = "lit ''Mon, 01 Jan 2024 12:00:00 +0000''"
  let ?h = "lit ''Fri, 31 Dec 9999 23:59:59 -0100''"
  let ?t = "(2024, 1, 1, 12, 0, 0, 0, 1, 0) :: struct_time"
  let ?w = world_no_link
  have 1: "entry_pubDate entry_bad_pubDate = Some ?s"
    and 2: "entry_published_parsed entry_bad_pubDate = Some (Some ?t)"
    by (simp_all add: entry_bad_pubDate_def)
  have 3: "strptime ?w ?s = None"
    and 4: "strptime ?w ?g = Some (1704110400, 0)"
    and 5: "strptime ?w ?h = Some (253402300799, - 3600)"
    and 6: "mktime ?w ?t = Inr 1704110400"
    and 7: "utcoffset_amsterdam ?w = (\<lambda>t. 3600)"
    by (simp_all add: world_no_link_def test_world_def test_strptime_def test_mktime_def)
  have a: "published_dt ?w 1704110460 entry_bad_pubDate = Inr \<lparr>wall = 1704110460, tzinfo = None\<rparr>"
    using published_dt_pubDate_first [of entry_bad_pubDate ?s ?w 1704110460] 1 3
    by blast
  have b: "published_dt ?w 1704110460 (entry_bad_pubDate\<lparr>entry_pubDate := None\<rparr>) =
     Inr \<lparr>wall = 1704114000, tzinfo = Some Europe_Amsterdam\<rparr>"
    using published_dt_pubDate_first [of "entry_bad_pubDate\<lparr>entry_pubDate := None\<rparr>" _
        ?w 1704110460 _ _ _ ?t 1704110400] 2 6 7
    by simp
  have c: "published_dt ?w 1704110460 (entry_bad_pubDate\<lparr>entry_pubDate := Some ?g\<rparr>) =
     Inr \<lparr>wall = 1704114000, tzinfo = Some Europe_Amsterdam\<rparr>"
    using published_dt_pubDate_first [of "entry_bad_pubDate\<lparr>entry_pubDate := Some ?g\<rparr>" ?g
        ?w 1704110460 1704110400 0] 4 7
    by simp
  have d: "published_dt ?w 1704110460 (entry_bad_pubDate\<lparr>entry_pubDate := Some ?h\<rparr>) =
     Inl OverflowError"
    using published_dt_pubDate_first [of "entry_bad_pubDate\<lparr>entry_pubDate := Some ?h\<rparr>" ?h
        ?w 1704110460 253402300799 "- 3600"] 5 7
    by simp
  from 1 2 3 a b c d show ?thesis by blast
qed

text \<open>
  Claim C3 at its failing input.  An entry without date fields, ingested at clock
  reading 1704110460, is stored with the naive UTC reading 1704110460 and no tzinfo,
  where \<open>datetime.now(amsterdam_tz)\<close>, which update_feed itself uses for
  \<open>last_reload\<close>, reads 1704114060 in zone Europe/Amsterdam.  The same holds for an entry
  whose \<open>pubDate\<close> does not parse.
\<close>

theorem published_dt_fallback_is_naive_utc:
  "entry_pubDate entry_bare = None \<and> entry_published_parsed entry_bare = None \<and>
   process_entries world_no_link 1704110460 [entry_bare] [] =
     Inr [\<lparr>id_col = 1, title = lit ''Dijk doorgebroken'', link = lit ''http://x/2'',
           published = Some \<lparr>wall = 1704110460, tzinfo = None\<rparr>, summary = Some []\<rparr>] \<and>
   now_amsterdam world_no_link 1704110460 = \<lparr>wall = 1704114060, tzinfo = Some amsterdam_tz\<rparr> \<and>
   published_dt world_no_link 1704110460 entry_bare \<noteq>
     Inr (now_amsterdam world_no_link 1704110460) \<and>
   published_dt world_no_link 1704110460 entry_bad_pubDate =
     Inr \<lparr>wall = 1704110460, tzinfo = None\<rparr>"
  by (simp add: entry_bare_def entry_bad_pubDate_def world_no_link_def test_world_def
      test_strptime_def filter_by_link_first_def session_add_def next_id_def published_dt_def
      summary_text_def utcnow_def now_amsterdam_def sqlite_datetime_def)

subsection \<open>Entries with missing fields\<close>




text \<open>
  A pass over a feed with an entry whose time tuple is the last second of the year
  9999 ends with OverflowError and stores nothing.
\<close>

lemma update_feed_year_9999:
  "update_feed world_year_9999 0 empty_state = (Some OverflowError, empty_state)"
  by (simp add: update_feed_def RSS_FEEDS_def get_feed_def world_year_9999_def test_world_def
      test_parse_def fetch_ok_def entry_storm_def entry_bare_def entry_year_9999_def
      empty_state_def filter_by_link_first_def session_add_def published_dt_def
      test_mktime_def fromtimestamp_def representable_def)



subsection \<open>The order of the queries\<close>

lemma mset_insert_desc: "mset (insert_desc a xs) = add_mset a (mset xs)"
  by (induction xs) simp_all

lemma mset_order_by_published_desc: "mset (order_by_published_desc rows) = mset rows"
  by (induction rows) (simp_all add: order_by_published_desc_def mset_insert_desc)

lemma set_insert_desc: "set (insert_desc a xs) = insert a (set xs)"
  using mset_insert_desc [of a xs] by (metis set_mset_add_mset_insert set_mset_mset)

lemma set_order_by_published_desc: "set (order_by_published_desc rows) = set rows"
  using mset_order_by_published_desc [of rows] by (metis set_mset_mset)

lemma length_order_by_published_desc: "length (order_by_published_desc rows) = length rows"
  using mset_order_by_published_desc [of rows] by (rule mset_eq_length)



lemma insert_desc_ties_by_id:
  assumes "sorted_wrt (\<lambda>a b. pub_key b < pub_key a \<or> (pub_key b = pub_key a \<and> id_col a < id_col b)) xs"
    and "\<forall>x \<in> set xs. id_col a < id_col x"
  shows "sorted_wrt (\<lambda>a b. pub_key b < pub_key a \<or> (pub_key b = pub_key a \<and> id_col a < id_col b))
           (insert_desc a xs)"
  using assms
proof (induction xs)
  case Nil
  show ?case by simp
next
  case (Cons b bs)
  show ?case
  proof (cases "pub_key b \<le> pub_key a")
    case True
    have "\<forall>x \<in> set (b # bs). pub_key x < pub_key a \<or> (pub_key x = pub_key a \<and> id_col a < id_col x)"
    proof
      fix x assume x: "x \<in> set (b # bs)"
      have "pub_key x \<le> pub_key b"
        using x Cons.prems(1) by auto
      with True have "pub_key x \<le> pub_key a" by simp
      moreover from x Cons.prems(2) have "id_col a < id_col x" by blast
      ultimately show "pub_key x < pub_key a \<or> (pub_key x = pub_key a \<and> id_col a < id_col x)"
        by auto
    qed
    with True Cons.prems(1) show ?thesis by simp
  next
    case False
    then have "pub_key a < pub_key b" by simp
    moreover have "sorted_wrt (\<lambda>a b. pub_key b < pub_key a \<or> (pub_key b = pub_key a \<and> id_col a < id_col b))
           (insert_desc a bs)"
      using Cons.prems by (auto intro: Cons.IH)
    ultimately show ?thesis
      using False Cons.prems(1) by (simp add: set_insert_desc)
  qed
qed

lemma order_by_published_desc_ties_by_id:
  "sorted_wrt (<) (map id_col rows)
   \<Longrightarrow> sorted_wrt (\<lambda>a b. pub_key b < pub_key a \<or> (pub_key b = pub_key a \<and> id_col a < id_col b))
         (order_by_published_desc rows)"
proof (induction rows)
  case Nil
  show ?case by (simp add: order_by_published_desc_def)
next
  case (Cons a rows)
  from Cons.prems have ids: "\<forall>x \<in> set rows. id_col a < id_col x"
    and rest: "sorted_wrt (<) (map id_col rows)"
    by (simp_all add: sorted_wrt_map)
  from rest have "sorted_wrt (\<lambda>a b. pub_key b < pub_key a \<or> (pub_key b = pub_key a \<and> id_col a < id_col b))
         (order_by_published_desc rows)"
    by (rule Cons.IH)
  moreover from ids have "\<forall>x \<in> set (order_by_published_desc rows). id_col a < id_col x"
    by (simp add: set_order_by_published_desc)
  ultimately have "sorted_wrt (\<lambda>a b. pub_key b < pub_key a \<or> (pub_key b = pub_key a \<and> id_col a < id_col b))
         (insert_desc a (order_by_published_desc rows))"
    by (rule insert_desc_ties_by_id)
  then show ?case by (simp add: order_by_published_desc_def)
qed

text \<open>The ids of the table grow with the rows, from any table where they do.\<close>

lemma le_fold_max: "(m::nat) \<le> fold max xs m"
proof (induction xs arbitrary: m)
  case Nil
  show ?case by simp
next
  case (Cons x xs)
  have "m \<le> max x m" by simp
  also have "\<dots> \<le> fold max xs (max x m)" by (rule Cons.IH)
  finally show ?case by simp
qed

lemma mem_le_fold_max: "x \<in> set xs \<Longrightarrow> (x::nat) \<le> fold max xs m"
proof (induction xs arbitrary: m)
  case Nil
  then show ?case by simp
next
  case (Cons y xs)
  show ?case
  proof (cases "x = y")
    case True
    have "x \<le> max y m" using True by simp
    also have "\<dots> \<le> fold max xs (max y m)" by (rule le_fold_max)
    finally show ?thesis by simp
  next
    case False
    with Cons.prems have "x \<in> set xs" by simp
    then have "x \<le> fold max xs (max y m)" by (rule Cons.IH)
    then show ?thesis by simp
  qed
qed

lemma id_col_less_next_id: "a \<in> set rows \<Longrightarrow> id_col a < next_id rows"
proof -
  assume "a \<in> set rows"
  then have "id_col a \<in> set (map id_col rows)" by simp
  then have "id_col a \<le> fold max (map id_col rows) 0" by (rule mem_le_fold_max)
  then show ?thesis by (simp add: next_id_def)
qed

lemma session_add_ids:
  "sorted_wrt (<) (map id_col rows) \<Longrightarrow> sorted_wrt (<) (map id_col (session_add rows t l p s))"
  by (simp add: session_add_def sorted_wrt_append id_col_less_next_id)

lemma process_entries_ids:
  "process_entries w now es rows = Inr rows' \<Longrightarrow> sorted_wrt (<) (map id_col rows)
   \<Longrightarrow> sorted_wrt (<) (map id_col rows')"
proof (induction es arbitrary: rows)
  case Nil
  then show ?case by simp
next
  case (Cons e es)
  from Cons.prems(1) show ?case
  proof (cases rule: process_entries_step)
    case (seen l)
    then show ?thesis using Cons.prems(2) by (auto intro: Cons.IH)
  next
    case (new l t p)
    have "sorted_wrt (<) (map id_col (session_add rows t l p (summary_text e)))"
      using Cons.prems(2) by (rule session_add_ids)
    with new(5) show ?thesis by (rule Cons.IH)
  qed
qed

lemma process_feeds_ids:
  "process_feeds w now urls rows = Inr rows' \<Longrightarrow> sorted_wrt (<) (map id_col rows)
   \<Longrightarrow> sorted_wrt (<) (map id_col rows')"
proof (induction urls arbitrary: rows)
  case Nil
  then show ?case by simp
next
  case (Cons u urls)
  then show ?case
    by (auto split: sum.splits if_splits dest: process_entries_ids)
qed

lemma run_passes_ids:
  "sorted_wrt (<) (map id_col (articles st))
   \<Longrightarrow> sorted_wrt (<) (map id_col (articles (run_passes ps st)))"
proof (induction ps arbitrary: st)
  case Nil
  then show ?case by simp
next
  case (Cons p ps)
  obtain w now where p: "p = (w, now)" by (cases p)
  from Cons.prems have "sorted_wrt (<) (map id_col (articles (snd (update_feed w now st))))"
    by (auto simp: update_feed_def split: sum.splits dest: process_feeds_ids)
  then show ?case unfolding p run_passes.simps by (rule Cons.IH)
qed

text \<open>
  Claim C5.  For a table whose ids grow with its rows (every table that the passes
  build from an empty one, by \<open>run_passes_ids\<close>), and every \<open>n\<close>: in the result of
  \<open>limit n\<close> on the ordered rows every article is followed only by articles that are
  older, or as old and of a larger id; the result has \<open>min n total\<close> rows; and every
  article of the table that is left out is older than each article of the result, or
  as old and of a larger id.  index is the case \<open>n = 25\<close>, rss_feed without a term the
  case \<open>n = 10\<close>.
\<close>

theorem order_by_published_desc_limit:
  assumes ids: "sorted_wrt (<) (map id_col (articles st))"
  shows "sorted_wrt (\<lambda>a b. map_option wall (published b) < map_option wall (published a) \<or> (map_option wall (published b) = map_option wall (published a) \<and> id_col a < id_col b))
       (limit n (order_by_published_desc (articles st))) \<and>
     length (limit n (order_by_published_desc (articles st))) = min n (length (articles st)) \<and>
     (\<exists>rest. mset (limit n (order_by_published_desc (articles st)) @ rest) = mset (articles st) \<and>
        (\<forall>a \<in> set (limit n (order_by_published_desc (articles st))). \<forall>b \<in> set rest.
            map_option wall (published b) < map_option wall (published a) \<or> (map_option wall (published b) = map_option wall (published a) \<and> id_col a < id_col b))) \<and>
     fst (index st) = limit 25 (order_by_published_desc (articles st)) \<and>
     rss_articles st None = limit 10 (order_by_published_desc (articles st))"
proof -
  let ?R = "\<lambda>a b. pub_key b < pub_key a \<or> (pub_key b = pub_key a \<and> id_col a < id_col b)"
  let ?all = "order_by_published_desc (articles st)"
  from ids have "sorted_wrt ?R ?all" by (rule order_by_published_desc_ties_by_id)
  then have "sorted_wrt ?R (take n ?all @ drop n ?all)" by simp
  then have 1: "sorted_wrt ?R (take n ?all)"
    and 3: "\<forall>a \<in> set (take n ?all). \<forall>b \<in> set (drop n ?all). ?R a b"
    unfolding sorted_wrt_append by blast+
  have 2: "length (take n ?all) = min n (length (articles st))"
    by (simp add: length_order_by_published_desc)
  have "mset (take n ?all @ drop n ?all) = mset (articles st)"
    by (simp add: mset_order_by_published_desc)
  with 3 have 4: "\<exists>rest. mset (take n ?all @ rest) = mset (articles st) \<and>
        (\<forall>a \<in> set (take n ?all). \<forall>b \<in> set rest. ?R a b)"
    by blast
  have 5: "fst (index st) = limit 25 ?all" by (simp add: index_def)
  have 6: "rss_articles st None = limit 10 ?all"
    by (simp add: rss_articles_def search_term_def strip_def)
  from 1 2 4 5 6 show ?thesis unfolding limit_def pub_key_def by blast
qed

lemma order_state_three:
  "order_by_published_desc [art1, art2, art3] = [art2, art3, art1]"
  by (simp add: order_by_published_desc_def pub_key_def art1_def art2_def art3_def)

theorem order_by_published_desc_limit_witness:
  "articles state_three = [art1, art2, art3] \<and>
   id_col art1 = 1 \<and> id_col art2 = 2 \<and> id_col art3 = 3 \<and>
   pub_key art1 = Some 1704110460 \<and> pub_key art2 = Some 1704114000 \<and>
   pub_key art3 = Some 1704114000 \<and>
   limit 2 (order_by_published_desc (articles state_three)) = [art2, art3] \<and>
   length (limit 2 (order_by_published_desc (articles state_three))) = min 2 (length (articles state_three)) \<and>
   fst (index state_three) = [art2, art3, art1]"
proof -
  have a: "articles state_three = [art1, art2, art3]" by (simp add: state_three_def)
  have i: "id_col art1 = 1 \<and> id_col art2 = 2 \<and> id_col art3 = 3"
    by (simp add: art1_def art2_def art3_def)
  have k: "pub_key art1 = Some 1704110460 \<and> pub_key art2 = Some 1704114000 \<and>
      pub_key art3 = Some 1704114000"
    by (simp add: pub_key_def art1_def art2_def art3_def)
  from a i have ids: "sorted_wrt (<) (map id_col (articles state_three))" by simp
  have l: "limit 2 (order_by_published_desc (articles state_three)) = [art2, art3]"
    and l25: "limit 25 (order_by_published_desc (articles state_three)) = [art2, art3, art1]"
    by (simp_all add: a order_state_three limit_def)
  from order_by_published_desc_limit [OF ids, of 2] l25
  have "length (limit 2 (order_by_published_desc (articles state_three))) =
      min 2 (length (articles state_three))"
    and "fst (index state_three) = [art2, art3, art1]"
    by simp_all
  with a i k l show ?thesis by blast
qed

subsection \<open>rss_feed without a term\<close>





subsection \<open>The search of rss_feed\<close>

lemma pattern_compare_percent: "pattern_compare [37] s"
  by (induction s) simp_all

lemma pattern_compare_literal_prefix:
  "37 \<notin> set t \<Longrightarrow> 95 \<notin> set t \<Longrightarrow> pattern_compare (t @ [37]) s \<longleftrightarrow> prefix t s"
proof (induction t arbitrary: s)
  case Nil
  then show ?case by (simp add: pattern_compare_percent)
next
  case (Cons p ps)
  then show ?case by (cases s) auto
qed

lemma pattern_compare_leading_percent:
  "pattern_compare (37 # q) s \<longleftrightarrow> (\<exists>u v. s = u @ v \<and> pattern_compare q v)"
proof (induction s)
  case Nil
  show ?case by (cases q) auto
next
  case (Cons c s)
  have "pattern_compare (37 # q) (c # s) \<longleftrightarrow>
      pattern_compare q (c # s) \<or> pattern_compare (37 # q) s"
    by simp
  also have "\<dots> \<longleftrightarrow> pattern_compare q (c # s) \<or> (\<exists>u v. s = u @ v \<and> pattern_compare q v)"
    by (simp only: Cons.IH)
  also have "\<dots> \<longleftrightarrow> (\<exists>u v. c # s = u @ v \<and> pattern_compare q v)"
  proof
    assume "pattern_compare q (c # s) \<or> (\<exists>u v. s = u @ v \<and> pattern_compare q v)"
    then show "\<exists>u v. c # s = u @ v \<and> pattern_compare q v"
    proof
      assume "pattern_compare q (c # s)"
      then have "c # s = [] @ (c # s) \<and> pattern_compare q (c # s)" by simp
      then show ?thesis by blast
    next
      assume "\<exists>u v. s = u @ v \<and> pattern_compare q v"
      then obtain u v where "s = u @ v" and "pattern_compare q v" by blast
      then have "c # s = (c # u) @ v \<and> pattern_compare q v" by simp
      then show ?thesis by blast
    qed
  next
    assume "\<exists>u v. c # s = u @ v \<and> pattern_compare q v"
    then obtain u v where uv: "c # s = u @ v" and q: "pattern_compare q v" by blast
    show "pattern_compare q (c # s) \<or> (\<exists>u v. s = u @ v \<and> pattern_compare q v)"
    proof (cases u)
      case Nil
      with uv q show ?thesis by simp
    next
      case (Cons a u')
      with uv have "s = u' @ v" by simp
      with q show ?thesis by blast
    qed
  qed
  finally show ?case .
qed

lemma pattern_compare_literal_substring:
  assumes "37 \<notin> set t" and "95 \<notin> set t"
  shows "pattern_compare ([37] @ t @ [37]) s \<longleftrightarrow> sublist t s"
proof -
  have "pattern_compare ([37] @ t @ [37]) s \<longleftrightarrow> (\<exists>u v. s = u @ v \<and> prefix t v)"
    using assms by (simp add: pattern_compare_leading_percent pattern_compare_literal_prefix)
  also have "\<dots> \<longleftrightarrow> sublist t s"
    by (auto simp: sublist_def prefix_def)
  finally show ?thesis .
qed

lemma c_string_no_nul: "0 \<notin> set s \<Longrightarrow> c_string s = s"
  by (induction s) (auto simp: c_string_def)

lemma ascii_lower_eq_non_letter:
  "x < 65 \<or> (90 < x \<and> x < 97) \<Longrightarrow> ascii_lower c = x \<longleftrightarrow> c = x"
  by (auto simp: ascii_lower_def)

lemma lower_mem_non_letter:
  "x < 65 \<or> (90 < x \<and> x < 97) \<Longrightarrow> x \<in> set (lower t) \<longleftrightarrow> x \<in> set t"
  by (induction t) (simp_all add: lower_def ascii_lower_eq_non_letter eq_commute [of x])

lemma lit_percent: "lit ''%'' = [37]"
  by (simp add: lit_def)

lemma lower_pattern: "lower ([37] @ t @ [37]) = [37] @ lower t @ [37]"
  by (simp add: lower_def ascii_lower_def)

lemma ilike_without_wildcards:
  assumes "37 \<notin> set t" and "95 \<notin> set t" and "0 \<notin> set t" and "0 \<notin> set col"
  shows "ilike col (lit ''%'' @ t @ lit ''%'') \<longleftrightarrow> spec_case_insensitive_substring t col"
proof -
  from assms have t: "37 \<notin> set (lower t)" "95 \<notin> set (lower t)" "0 \<notin> set (lower t)"
    and c: "0 \<notin> set (lower col)"
    by (simp_all add: lower_mem_non_letter)
  from t have "0 \<notin> set ([37] @ lower t @ [37])" by simp
  then have "c_string ([37] @ lower t @ [37]) = [37] @ lower t @ [37]"
    by (rule c_string_no_nul)
  moreover from c have "c_string (lower col) = lower col" by (rule c_string_no_nul)
  moreover from t(1,2) have "pattern_compare ([37] @ lower t @ [37]) (lower col) \<longleftrightarrow>
      sublist (lower t) (lower col)"
    by (rule pattern_compare_literal_substring)
  ultimately show ?thesis
    unfolding ilike_def sql_like_def spec_case_insensitive_substring_def lit_percent lower_pattern
    by simp
qed

text \<open>
  A term without \<open>%\<close>, \<open>_\<close> and NUL selects, among articles whose title and summary
  hold no NUL, exactly the articles the specification describes.
\<close>

lemma search_filter_without_wildcards:
  assumes "37 \<notin> set t" and "95 \<notin> set t" and "0 \<notin> set t"
    and "0 \<notin> set (title a)" and "\<forall>s. summary a = Some s \<longrightarrow> 0 \<notin> set s"
  shows "search_filter t a \<longleftrightarrow>
     spec_case_insensitive_substring t (title a) \<or>
     (\<exists>s. summary a = Some s \<and> spec_case_insensitive_substring t s)"
proof (cases "summary a")
  case None
  then show ?thesis
    unfolding search_filter_def
    using ilike_without_wildcards [OF assms(1,2,3,4)] by simp
next
  case (Some s)
  with assms(5) have "0 \<notin> set s" by simp
  with assms(1,2,3)
  have "ilike s (lit ''%'' @ t @ lit ''%'') \<longleftrightarrow> spec_case_insensitive_substring t s"
    by (rule ilike_without_wildcards)
  with Some show ?thesis
    unfolding search_filter_def
    using ilike_without_wildcards [OF assms(1,2,3,4)] by simp
qed

text \<open>
  Claim C4 at its failing inputs.  The term is pasted between two \<open>%\<close> into a LIKE
  pattern, so \<open>_\<close> and \<open>%\<close> inside the term are wildcards: the term \<open>st_rm\<close> selects an
  article titled \<open>Storm warning issued\<close>, and the term \<open>%\<close> selects every article,
  though neither term occurs in the title or the summary.
\<close>

theorem rss_feed_like_wildcards:
  "rss_articles state_three (Some (lit ''st_rm'')) = [art1] \<and>
   title art1 = lit ''Storm warning issued'' \<and>
   summary art1 = Some (lit ''Heavy rain expected'') \<and>
   \<not> spec_case_insensitive_substring (lit ''st_rm'') (lit ''Storm warning issued'') \<and>
   \<not> spec_case_insensitive_substring (lit ''st_rm'') (lit ''Heavy rain expected'') \<and>
   rss_articles state_three (Some (lit ''%'')) = [art2, art3, art1] \<and>
   title art2 = lit ''Dijk doorgebroken'' \<and> summary art2 = Some [] \<and>
   \<not> spec_case_insensitive_substring (lit ''%'') (lit ''Dijk doorgebroken'') \<and>
   \<not> spec_case_insensitive_substring (lit ''%'') []"
proof -
  have t1: "search_term (Some (lit ''st_rm'')) = lit ''st_rm''"
    and t2: "search_term (Some (lit ''%'')) = lit ''%''"
    by (simp_all add: search_term_def strip_def isspace_def lit_def)
  have f1: "filter (search_filter (lit ''st_rm'')) [art1, art2, art3] = [art1]"
    by (simp add: search_filter_def ilike_def sql_like_def c_string_def lit_def lower_def
        ascii_lower_def art1_def art2_def art3_def)
  have f2: "filter (search_filter (lit ''%'')) [art1, art2, art3] = [art1, art2, art3]"
    by (simp add: search_filter_def ilike_def sql_like_def c_string_def lit_def lower_def
        ascii_lower_def art1_def art2_def art3_def)
  have ne: "lit ''st_rm'' \<noteq> []" "lit ''%'' \<noteq> []"
    by (simp_all add: lit_def)
  have rows: "articles state_three = [art1, art2, art3]"
    by (simp add: state_three_def)
  have "rss_articles state_three (Some (lit ''st_rm'')) =
      limit 10 (order_by_published_desc (filter (search_filter (lit ''st_rm'')) (articles state_three)))"
    using ne(1) by (simp only: rss_articles_def Let_def t1 if_True not_False_eq_True)
  then have "rss_articles state_three (Some (lit ''st_rm'')) =
      limit 10 (order_by_published_desc [art1])"
    by (simp only: rows f1)
  then have r1: "rss_articles state_three (Some (lit ''st_rm'')) = [art1]"
    by (simp add: limit_def order_by_published_desc_def)
  have "rss_articles state_three (Some (lit ''%'')) =
      limit 10 (order_by_published_desc (filter (search_filter (lit ''%'')) (articles state_three)))"
    using ne(2) by (simp only: rss_articles_def Let_def t2 if_True not_False_eq_True)
  then have "rss_articles state_three (Some (lit ''%'')) =
      limit 10 (order_by_published_desc [art1, art2, art3])"
    by (simp only: rows f2)
  then have r2: "rss_articles state_three (Some (lit ''%'')) = [art2, art3, art1]"
    by (simp add: limit_def order_state_three)
  have a: "title art1 = lit ''Storm warning issued'' \<and>
      summary art1 = Some (lit ''Heavy rain expected'') \<and>
      title art2 = lit ''Dijk doorgebroken'' \<and> summary art2 = Some []"
    by (simp add: art1_def art2_def)
  have n: "\<not> spec_case_insensitive_substring (lit ''st_rm'') (lit ''Storm warning issued'') \<and>
      \<not> spec_case_insensitive_substring (lit ''st_rm'') (lit ''Heavy rain expected'') \<and>
      \<not> spec_case_insensitive_substring (lit ''%'') (lit ''Dijk doorgebroken'') \<and>
      \<not> spec_case_insensitive_substring (lit ''%'') []"
    by (simp add: spec_case_insensitive_substring_def lit_def lower_def ascii_lower_def
        sublist_Cons_right)
  from r1 r2 a n show ?thesis by blast
qed

subsection \<open>The document of rss_feed\<close>

text \<open>
  Claim C9 at its failing input.  rss_feed pastes title, link and summary into the
  document as they are.  The article titled \<open>Q&A met de minister\<close> gives an item whose
  title element holds a bare \<open>&\<close>, which no well-formed XML document may hold.
\<close>

theorem rss_feed_title_not_escaped:
  "rss_feed world_no_link state_three None = rss_feed_xml world_no_link [art2, art3, art1] \<and>
   feed_item world_no_link art3 =
     nl @ lit ''        <item>'' @
     nl @ lit ''            <title>Q&A met de minister</title>'' @
     nl @ lit ''            <link>http://x/3</link>'' @
     nl @ lit ''            <description><![CDATA[Vragen]]></description>'' @
     nl @ lit ''            <pubDate>Mon, 01 Jan 2024 13:00:00 </pubDate>'' @
     nl @ lit ''            <guid>http://x/3</guid>'' @
     nl @ lit ''        </item>'' @
     nl @ lit ''        ''"
proof -
  have "rss_articles state_three None = [art2, art3, art1]"
    by (simp add: rss_articles_def search_term_def strip_def state_three_def limit_def
        order_state_three)
  moreover have "feed_item world_no_link art3 =
     nl @ lit ''        <item>'' @
     nl @ lit ''            <title>Q&A met de minister</title>'' @
     nl @ lit ''            <link>http://x/3</link>'' @
     nl @ lit ''            <description><![CDATA[Vragen]]></description>'' @
     nl @ lit ''            <pubDate>Mon, 01 Jan 2024 13:00:00 </pubDate>'' @
     nl @ lit ''            <guid>http://x/3</guid>'' @
     nl @ lit ''        </item>'' @
     nl @ lit ''        ''"
    by (simp add: feed_item_def pub_date_def str_summary_def art3_def world_no_link_def
        test_world_def lit_def)
  ultimately show ?thesis by (simp add: rss_feed_def)
qed

end
